theory Spec2Isabelle
  imports Main "HOL-Library.Sublist"
begin

section \<open>The project store of \<^verbatim>\<open>src/app.ts\<close>\<close>

subsection \<open>Data\<close>

text \<open>
  \<^verbatim>\<open>enum ProjectStatus { Active, Finished }\<close> and \<^verbatim>\<open>class Project\<close> (lines 14 and 24-32).
  The field \<^verbatim>\<open>id\<close> is called \<open>id_prj\<close> here, since \<open>id\<close> is the identity function of HOL.
  \<^verbatim>\<open>people\<close> is a JavaScript number that the store only stores, so its type is left
  open as \<open>'n\<close>.
\<close>

datatype ProjectStatus = Active | Finished

record 'n Project =
  id_prj :: string
  title :: string
  description :: string
  people :: 'n
  status :: ProjectStatus

text \<open>
  Objects and arrays of JavaScript are references. A \<^verbatim>\<open>Project\<close> object lives at an
  address of \<open>prjs\<close>, a \<^verbatim>\<open>Project[]\<close> array at an address of \<open>arrs\<close> and holds the
  addresses of its elements; \<open>fresh\<close> is the next address that \<^verbatim>\<open>new\<close> or
  \<^verbatim>\<open>slice\<close> hands out. References never dangle in JavaScript, so both stores are total
  functions.

  \<open>calls\<close> is an observation log, not program state: every call of a listener is
  appended to it, with the listener's name, the array it was passed, and what that
  array and the objects in it held at that moment.
\<close>

record 'n invocation =
  who :: nat
  arg :: nat
  items :: "nat list"
  seen :: "'n Project list"

record 'n heap =
  prjs :: "nat \<Rightarrow> 'n Project"
  arrs :: "nat \<Rightarrow> nat list"
  fresh :: nat
  calls :: "'n invocation list"

text \<open>
  \<^verbatim>\<open>type Listener<T> = (items: T[]) => void\<close> (line 15). What a callback does is not
  part of the store; the model lets it write through the one value it is handed:
  \<open>MutArray f\<close> is any in-place change of the received array (\<^verbatim>\<open>push\<close>,
  \<^verbatim>\<open>pop\<close>, \<^verbatim>\<open>splice\<close>, \<^verbatim>\<open>sort\<close>, \<^verbatim>\<open>items[i] = p\<close>, \<^verbatim>\<open>items.length = k\<close>), and
  \<open>MutElem i f\<close> is a write to a field of the element \<^verbatim>\<open>items[i]\<close>, which throws a
  \<^verbatim>\<open>TypeError\<close> when the array has no element \<open>i\<close>; \<open>Throw\<close> is a \<^verbatim>\<open>throw\<close> of the
  listener's own. What a listener does ends at its first exception. A listener does
  not call back into the store (\<^verbatim>\<open>addListener\<close>, \<^verbatim>\<open>addProject\<close>, \<^verbatim>\<open>moveProject\<close>) while
  it is being notified, which is the discipline of section 5 of the specification.
\<close>

datatype error = TypeError | Thrown

datatype 'n mutation =
    MutArray "nat list \<Rightarrow> nat list"
  | MutElem nat "'n Project \<Rightarrow> 'n Project"
  | Throw

record 'n listener =
  name :: nat
  react :: "'n mutation list"

text \<open>
  The fields of a \<^verbatim>\<open>ProjectState\<close> object (lines 18 and 36): \<^verbatim>\<open>listeners\<close>, an array
  that only \<^verbatim>\<open>addListener\<close> touches, and \<^verbatim>\<open>projects\<close>, the address of the private array.
\<close>

record 'n ProjectState =
  listeners :: "'n listener list"
  projects :: nat

subsection \<open>Heap operations\<close>

definition new_Project :: "'n Project \<Rightarrow> 'n heap \<Rightarrow> nat \<times> 'n heap" where
  "new_Project p h = (fresh h, h\<lparr>prjs := (prjs h)(fresh h := p), fresh := Suc (fresh h)\<rparr>)"

definition push :: "nat \<Rightarrow> nat \<Rightarrow> 'n heap \<Rightarrow> 'n heap" where
  "push a r h = h\<lparr>arrs := (arrs h)(a := arrs h a @ [r])\<rparr>"

text \<open>\<^verbatim>\<open>this.projects.slice()\<close>: a new array with the same elements (a shallow copy).\<close>

definition slice_arr :: "nat \<Rightarrow> 'n heap \<Rightarrow> nat \<times> 'n heap" where
  "slice_arr a h = (fresh h, h\<lparr>arrs := (arrs h)(fresh h := arrs h a), fresh := Suc (fresh h)\<rparr>)"

text \<open>
  The result of everything that can throw is a pair: the exception thrown, if any, and
  the memory at that point. What was written before an exception stays written.
\<close>

fun mutate :: "nat \<Rightarrow> 'n heap \<Rightarrow> 'n mutation \<Rightarrow> error option \<times> 'n heap" where
  "mutate a h (MutArray f) = (None, h\<lparr>arrs := (arrs h)(a := f (arrs h a))\<rparr>)"
| "mutate a h (MutElem i f) =
     (if i < length (arrs h a)
      then (None, h\<lparr>prjs := (prjs h)(arrs h a ! i := f (prjs h (arrs h a ! i)))\<rparr>)
      else (Some TypeError, h))"
| "mutate a h Throw = (Some Thrown, h)"

fun run_body :: "nat \<Rightarrow> 'n heap \<Rightarrow> 'n mutation list \<Rightarrow> error option \<times> 'n heap" where
  "run_body a h [] = (None, h)"
| "run_body a h (m # ms) =
     (case mutate a h m of
        (None, h1) \<Rightarrow> run_body a h1 ms
      | (Some e, h1) \<Rightarrow> (Some e, h1))"

text \<open>\<^verbatim>\<open>listenerFn(a)\<close>: the call is logged, then the listener's writes go through \<open>a\<close>.\<close>

definition invoke :: "'n listener \<Rightarrow> nat \<Rightarrow> 'n heap \<Rightarrow> error option \<times> 'n heap" where
  "invoke l a h =
     run_body a
       (h\<lparr>calls := calls h @
            [\<lparr>who = name l, arg = a, items = arrs h a, seen = map (prjs h) (arrs h a)\<rparr>]\<rparr>)
       (react l)"

text \<open>The projects of the store, in order, as the values its array refers to.\<close>

definition collection :: "'n ProjectState \<Rightarrow> 'n heap \<Rightarrow> 'n Project list" where
  "collection s h = map (prjs h) (arrs h (projects s))"

subsection \<open>\<^verbatim>\<open>State\<close> and \<^verbatim>\<open>ProjectState\<close>\<close>


text \<open>
  The loop \<^verbatim>\<open>for (const listenerFn of this.listeners) listenerFn(this.projects.slice())\<close>,
  written out in \<^verbatim>\<open>addProject\<close> (lines 54-56) and again in \<^verbatim>\<open>updateListeners\<close>
  (lines 68-70): \<open>p\<close> is \<^verbatim>\<open>this.projects\<close>, sliced anew for every listener. There is no
  \<^verbatim>\<open>try\<close> around the call, so an exception of a listener ends the loop and leaves the
  method that runs it.
\<close>

fun for_listeners :: "'n listener list \<Rightarrow> nat \<Rightarrow> 'n heap \<Rightarrow> error option \<times> 'n heap" where
  "for_listeners [] p h = (None, h)"
| "for_listeners (listenerFn # rest) p h =
     (case slice_arr p h of (a, h1) \<Rightarrow>
        (case invoke listenerFn a h1 of
           (None, h2) \<Rightarrow> for_listeners rest p h2
         | (Some e, h2) \<Rightarrow> (Some e, h2)))"

definition updateListeners :: "'n ProjectState \<Rightarrow> 'n heap \<Rightarrow> error option \<times> 'n heap" where
  "updateListeners s h = for_listeners (listeners s) (projects s) h"

text \<open>
  \<^verbatim>\<open>addProject\<close> (lines 51-57). \<open>rnd\<close> is the string \<^verbatim>\<open>Math.random().toString()\<close> of this
  call, which the environment supplies.
\<close>

definition addProject ::
  "'n ProjectState \<Rightarrow> string \<Rightarrow> string \<Rightarrow> string \<Rightarrow> 'n \<Rightarrow> 'n heap \<Rightarrow> error option \<times> 'n heap" where
  "addProject s rnd t d numOfPeople h =
     (case new_Project
             \<lparr>id_prj = rnd, title = t, description = d, people = numOfPeople, status = Active\<rparr> h
      of (newProject, h1) \<Rightarrow>
        for_listeners (listeners s) (projects s) (push (projects s) newProject h1))"

text \<open>
  \<^verbatim>\<open>moveProject\<close> (lines 59-65). \<^verbatim>\<open>find\<close> gives the first element whose id is
  \<open>projectId\<close>, or \<^verbatim>\<open>undefined\<close>, which the guard \<^verbatim>\<open>project && ...\<close> turns away.
\<close>

definition moveProject ::
  "'n ProjectState \<Rightarrow> string \<Rightarrow> ProjectStatus \<Rightarrow> 'n heap \<Rightarrow> error option \<times> 'n heap" where
  "moveProject s projectId newStatus h =
     (case find (\<lambda>prj. id_prj (prjs h prj) = projectId) (arrs h (projects s)) of
        None \<Rightarrow> (None, h)
      | Some project \<Rightarrow>
          if status (prjs h project) \<noteq> newStatus
          then updateListeners s
                 (h\<lparr>prjs := (prjs h)(project := (prjs h project)\<lparr>status := newStatus\<rparr>)\<rparr>)
          else (None, h))"



subsection \<open>The class side: \<^verbatim>\<open>getInstance\<close>\<close>

text \<open>
  \<^verbatim>\<open>private static instance\<close> (line 37) is \<open>the_instance\<close>, \<open>None\<close> while it is
  \<^verbatim>\<open>undefined\<close>; \<open>states\<close> lists every \<^verbatim>\<open>ProjectState\<close> object constructed so far, with
  its address. The constructor (lines 18, 36, 39-41) makes an object with no listeners and
  a new empty array of projects.
\<close>

record 'n process =
  the_instance :: "nat option"
  states :: "(nat \<times> 'n ProjectState) list"
  mem :: "'n heap"

definition new_ProjectState :: "'n process \<Rightarrow> nat \<times> 'n process" where
  "new_ProjectState pr =
     (Suc (fresh (mem pr)),
      pr\<lparr>states := states pr @
                     [(Suc (fresh (mem pr)), \<lparr>listeners = [], projects = fresh (mem pr)\<rparr>)],
         mem := (mem pr)\<lparr>arrs := (arrs (mem pr))(fresh (mem pr) := []),
                         fresh := Suc (Suc (fresh (mem pr)))\<rparr>\<rparr>)"

definition getInstance :: "'n process \<Rightarrow> nat \<times> 'n process" where
  "getInstance pr =
     (case the_instance pr of
        Some inst \<Rightarrow> (inst, pr)
      | None \<Rightarrow> (case new_ProjectState pr of (inst, pr1) \<Rightarrow> (inst, pr1\<lparr>the_instance := Some inst\<rparr>)))"

text \<open>\<open>k\<close> calls of \<^verbatim>\<open>getInstance\<close> in a row, with the references they return.\<close>

primrec getInstances :: "nat \<Rightarrow> 'n process \<Rightarrow> nat list \<times> 'n process" where
  "getInstances 0 pr = ([], pr)"
| "getInstances (Suc k) pr =
     (case getInstance pr of (inst, pr1) \<Rightarrow>
        (case getInstances k pr1 of (insts, pr2) \<Rightarrow> (inst # insts, pr2)))"

subsection \<open>The drop target: \<^verbatim>\<open>dragOverHandler\<close>\<close>

text \<open>
  What \<^verbatim>\<open>ProjectList.dragOverHandler\<close> (lines 208-215) reads and writes: the event with
  its transfer channel (\<^verbatim>\<open>dataTransfer\<close> may be \<^verbatim>\<open>null\<close>), the class list of the
  \<^verbatim>\<open>ul\<close> under the list's element, and the memory of the global \<^verbatim>\<open>projectState\<close>, which
  the handler can reach. The HTML template is not part of the sources, so whether the
  \<^verbatim>\<open>ul\<close> exists is a parameter: \<open>ul_classList = None\<close> is \<^verbatim>\<open>querySelector('ul')\<close>
  returning \<^verbatim>\<open>null\<close>, and the use of the result then throws.
\<close>

record DataTransfer =
  types :: "string list"
  effectAllowed :: string

record DragEvent =
  dataTransfer :: "DataTransfer option"
  defaultPrevented :: bool

record 'n page =
  event :: DragEvent
  ul_classList :: "string list option"
  store :: "'n heap"

text \<open>\<^verbatim>\<open>classList.add\<close>: a token already present is not added again.\<close>

definition classList_add :: "string \<Rightarrow> string list \<Rightarrow> string list" where
  "classList_add c cl = (if c \<in> set cl then cl else cl @ [c])"

text \<open>\<^verbatim>\<open>event.dataTransfer && event.dataTransfer.types[0] === 'text/plain'\<close>.\<close>

definition plain_text :: "DragEvent \<Rightarrow> bool" where
  "plain_text e =
     (case dataTransfer e of
        None \<Rightarrow> False
      | Some dt \<Rightarrow> (case types dt of [] \<Rightarrow> False | k # _ \<Rightarrow> k = ''text/plain''))"

text \<open>The first component of the result is the exception thrown, if any.\<close>

definition dragOverHandler :: "'n page \<Rightarrow> error option \<times> 'n page" where
  "dragOverHandler pg =
     (if plain_text (event pg)
      then (case ul_classList pg of
              None \<Rightarrow> (Some TypeError, pg\<lparr>event := (event pg)\<lparr>defaultPrevented := True\<rparr>\<rparr>)
            | Some listEl \<Rightarrow>
                (None, pg\<lparr>event := (event pg)\<lparr>defaultPrevented := True\<rparr>,
                          ul_classList := Some (classList_add ''droppable'' listEl)\<rparr>))
      else (None, pg))"

subsection \<open>Predicates of the statements\<close>

text \<open>
  A listener that only changes the array it is handed: it leaves the \<^verbatim>\<open>Project\<close>
  objects in it alone and throws nothing.
\<close>

fun array_write :: "'n mutation \<Rightarrow> bool" where
  "array_write (MutArray f) = True"
| "array_write (MutElem i f) = False"
| "array_write Throw = False"

definition array_only :: "'n listener \<Rightarrow> bool" where
  "array_only l = list_all array_write (react l)"

text \<open>
  What allocation guarantees of a store: its array and the objects in the array have
  been allocated, and no object is in the array twice.
\<close>

definition store_inv :: "'n ProjectState \<Rightarrow> 'n heap \<Rightarrow> bool" where
  "store_inv s h =
     (projects s < fresh h \<and> list_all (\<lambda>r. r < fresh h) (arrs h (projects s))
      \<and> distinct (arrs h (projects s)))"

text \<open>The listener calls logged on the way from \<open>h\<close> to \<open>h'\<close>.\<close>

definition notified :: "'n heap \<Rightarrow> 'n heap \<Rightarrow> 'n invocation list" where
  "notified h h' = drop (length (calls h)) (calls h')"

text \<open>Concrete states for the examples: the memory at program start, and a blank object.\<close>

definition blank :: "int Project" where
  "blank = \<lparr>id_prj = [], title = [], description = [], people = 0, status = Active\<rparr>"

definition heap0 :: "int heap" where
  "heap0 = \<lparr>prjs = (\<lambda>_. blank), arrs = (\<lambda>_. []), fresh = 0, calls = []\<rparr>"

definition process0 :: "int process" where
  "process0 = \<lparr>the_instance = None, states = [], mem = heap0\<rparr>"



definition heap_one :: "int heap" where
  "heap_one =
     \<lparr>prjs = (\<lambda>_. blank)
        (2 := \<lparr>id_prj = ''0.5'', title = ''T'', description = ''D'', people = 3, status = Active\<rparr>),
      arrs = (\<lambda>_. [])(0 := [2]), fresh = 3, calls = []\<rparr>"

definition heap_fin :: "int heap" where
  "heap_fin =
     \<lparr>prjs = (\<lambda>_. blank)
        (2 := \<lparr>id_prj = ''0.5'', title = ''A'', description = ''B'', people = 1, status = Finished\<rparr>,
         3 := \<lparr>id_prj = ''0.5'', title = ''C'', description = ''D'', people = 2, status = Active\<rparr>),
      arrs = (\<lambda>_. [])(0 := [2, 3]), fresh = 4, calls = []\<rparr>"


text \<open>
  Listeners: one that only reads, as the listener of \<^verbatim>\<open>ProjectList.configure\<close>
  (lines 238-247) does; one that empties the array it is handed
  (\<^verbatim>\<open>items.length = 0\<close>); one that writes \<^verbatim>\<open>items[0].status = ProjectStatus.Finished\<close>;
  one that writes \<^verbatim>\<open>items[1].title = 'X'\<close>; and one that writes \<^verbatim>\<open>items[7].title = 'X'\<close>,
  which throws on the arrays of the examples, all shorter than eight.
\<close>

definition reading :: "int listener" where
  "reading = \<lparr>name = 10, react = []\<rparr>"

definition clearing :: "int listener" where
  "clearing = \<lparr>name = 11, react = [MutArray (\<lambda>_. [])]\<rparr>"

definition finishing :: "int listener" where
  "finishing = \<lparr>name = 12, react = [MutElem 0 (\<lambda>p. p\<lparr>status := Finished\<rparr>)]\<rparr>"


definition thrower :: "int listener" where
  "thrower = \<lparr>name = 13, react = [MutElem 7 (\<lambda>p. p\<lparr>title := ''X''\<rparr>)]\<rparr>"

definition store2 :: "int ProjectState" where
  "store2 = \<lparr>listeners = [reading, clearing], projects = 0\<rparr>"

definition store_f :: "int ProjectState" where
  "store_f = \<lparr>listeners = [finishing, reading], projects = 0\<rparr>"



definition store_ft :: "int ProjectState" where
  "store_ft = \<lparr>listeners = [finishing, thrower, reading], projects = 0\<rparr>"

text \<open>No \<^verbatim>\<open>ProjectState\<close> yet, or exactly the one that \<open>the_instance\<close> refers to.\<close>

definition single_instance :: "'n process \<Rightarrow> bool" where
  "single_instance pr =
     (case the_instance pr of None \<Rightarrow> states pr = [] | Some inst \<Rightarrow> map fst (states pr) = [inst])"

text \<open>A drag-over event whose channel declares HTML first, and one that declares plain text.\<close>

definition html_event :: DragEvent where
  "html_event =
     \<lparr>dataTransfer = Some \<lparr>types = [''text/html'', ''text/plain''], effectAllowed = ''move''\<rparr>,
      defaultPrevented = False\<rparr>"

definition text_event :: DragEvent where
  "text_event =
     \<lparr>dataTransfer = Some \<lparr>types = [''text/plain''], effectAllowed = ''move''\<rparr>,
      defaultPrevented = False\<rparr>"

definition page0 :: "int page" where
  "page0 = \<lparr>event = text_event, ul_classList = Some [], store = heap_one\<rparr>"

section \<open>Frame lemmas\<close>

text \<open>
  A listener writes to the array it is handed, which is always a new address, and to
  the objects in it; it allocates nothing and logs nothing.
\<close>

lemma mutate_frame:
  assumes "mutate a h m = (r, h1)"
  shows "fresh h1 = fresh h \<and> calls h1 = calls h
    \<and> (\<forall>x. x \<noteq> a \<longrightarrow> arrs h1 x = arrs h x)
    \<and> (array_write m \<longrightarrow> prjs h1 = prjs h \<and> r = None)"
  using assms by (cases m) (auto split: if_splits)

lemma run_body_frame:
  assumes "run_body a h ms = (r, h1)"
  shows "fresh h1 = fresh h \<and> calls h1 = calls h
    \<and> (\<forall>x. x \<noteq> a \<longrightarrow> arrs h1 x = arrs h x)
    \<and> (list_all array_write ms \<longrightarrow> prjs h1 = prjs h \<and> r = None)"
  using assms
proof (induction ms arbitrary: h)
  case Nil
  then show ?case by simp
next
  case (Cons m ms)
  obtain r0 h0 where m: "mutate a h m = (r0, h0)" by (cases "mutate a h m")
  note f = mutate_frame[OF m]
  show ?case
  proof (cases r0)
    case None
    from Cons.prems have "run_body a h0 ms = (r, h1)" by (simp add: m None)
    from Cons.IH[OF this] f None show ?thesis by simp
  next
    case (Some e)
    from Cons.prems have "r = Some e" "h1 = h0" by (simp_all add: m Some)
    with f Some show ?thesis by auto
  qed
qed

lemma invoke_frame:
  assumes "invoke l a h = (r, h1)"
  shows "fresh h1 = fresh h"
    and "calls h1 = calls h @
           [\<lparr>who = name l, arg = a, items = arrs h a, seen = map (prjs h) (arrs h a)\<rparr>]"
    and "x \<noteq> a \<Longrightarrow> arrs h1 x = arrs h x"
    and "array_only l \<Longrightarrow> prjs h1 = prjs h \<and> r = None"
  using run_body_frame[OF assms[unfolded invoke_def]] by (simp_all add: array_only_def)

text \<open>One round of the loop: the listener is called with a copy at the address \<open>fresh h\<close>.\<close>

lemma for_listeners_Cons:
  "\<exists>r h2. for_listeners (l # ls) p h =
            (case r of None \<Rightarrow> for_listeners ls p h2 | Some e \<Rightarrow> (Some e, h2))
     \<and> fresh h2 = Suc (fresh h)
     \<and> calls h2 = calls h @
           [\<lparr>who = name l, arg = fresh h, items = arrs h p, seen = map (prjs h) (arrs h p)\<rparr>]
     \<and> (\<forall>x. x < fresh h \<longrightarrow> arrs h2 x = arrs h x)
     \<and> (array_only l \<longrightarrow> prjs h2 = prjs h \<and> r = None)"
proof -
  obtain r h2 where i: "invoke l (fresh h) (snd (slice_arr p h)) = (r, h2)"
    by (cases "invoke l (fresh h) (snd (slice_arr p h))")
  note f = invoke_frame[OF i]
  have "for_listeners (l # ls) p h =
      (case r of None \<Rightarrow> for_listeners ls p h2 | Some e \<Rightarrow> (Some e, h2))"
    using i by (simp add: slice_arr_def split: option.splits)
  moreover have "fresh h2 = Suc (fresh h)" using f(1) by (simp add: slice_arr_def)
  moreover have "calls h2 = calls h @
           [\<lparr>who = name l, arg = fresh h, items = arrs h p, seen = map (prjs h) (arrs h p)\<rparr>]"
    using f(2) by (simp add: slice_arr_def)
  moreover have "\<forall>x. x < fresh h \<longrightarrow> arrs h2 x = arrs h x"
    using f(3) by (simp add: slice_arr_def)
  moreover have "array_only l \<longrightarrow> prjs h2 = prjs h \<and> r = None"
    using f(4) by (simp add: slice_arr_def)
  ultimately show ?thesis by blast
qed

lemma for_listeners_fresh: "fresh h \<le> fresh (snd (for_listeners ls p h))"
proof (induction ls arbitrary: h)
  case Nil
  then show ?case by simp
next
  case (Cons l ls)
  obtain r h2 where s: "for_listeners (l # ls) p h = (case r of None \<Rightarrow> for_listeners ls p h2 | Some e \<Rightarrow> (Some e, h2))"
    "fresh h2 = Suc (fresh h)" using for_listeners_Cons[of l ls p h] by blast
  show ?case using Cons.IH[of h2] s
    by (cases r) (simp_all del: for_listeners.simps)
qed

lemma for_listeners_arrs: "x < fresh h \<Longrightarrow> arrs (snd (for_listeners ls p h)) x = arrs h x"
proof (induction ls arbitrary: h)
  case Nil
  then show ?case by simp
next
  case (Cons l ls)
  obtain r h2 where s: "for_listeners (l # ls) p h = (case r of None \<Rightarrow> for_listeners ls p h2 | Some e \<Rightarrow> (Some e, h2))"
    "fresh h2 = Suc (fresh h)" "\<forall>x. x < fresh h \<longrightarrow> arrs h2 x = arrs h x"
    using for_listeners_Cons[of l ls p h] by blast
  show ?case using Cons.IH[of h2] Cons.prems s
    by (cases r) (simp_all del: for_listeners.simps)
qed

lemma for_listeners_quiet:
  "list_all array_only ls \<Longrightarrow>
   prjs (snd (for_listeners ls p h)) = prjs h \<and> fst (for_listeners ls p h) = None"
proof (induction ls arbitrary: h)
  case Nil
  then show ?case by simp
next
  case (Cons l ls)
  obtain r h2 where s: "for_listeners (l # ls) p h = (case r of None \<Rightarrow> for_listeners ls p h2 | Some e \<Rightarrow> (Some e, h2))"
    "array_only l \<longrightarrow> prjs h2 = prjs h \<and> r = None"
    using for_listeners_Cons[of l ls p h] by blast
  show ?case using Cons.IH[of h2] Cons.prems s by (simp del: for_listeners.simps)
qed

lemma for_listeners_calls_append:
  "calls (snd (for_listeners ls p h)) = calls h @ notified h (snd (for_listeners ls p h))"
proof -
  have "\<exists>es. calls (snd (for_listeners ls p h)) = calls h @ es"
  proof (induction ls arbitrary: h)
    case Nil
    then show ?case by simp
  next
    case (Cons l ls)
    obtain r h2 e where s: "for_listeners (l # ls) p h = (case r of None \<Rightarrow> for_listeners ls p h2 | Some e \<Rightarrow> (Some e, h2))"
      "calls h2 = calls h @ [e]" using for_listeners_Cons[of l ls p h] by blast
    show ?case using Cons.IH[of h2] s
      by (cases r) (auto simp del: for_listeners.simps)
  qed
  then show ?thesis by (auto simp: notified_def)
qed

lemma notified_Cons:
  "\<exists>r h2. for_listeners (l # ls) p h =
            (case r of None \<Rightarrow> for_listeners ls p h2 | Some e \<Rightarrow> (Some e, h2))
     \<and> notified h (snd (for_listeners (l # ls) p h)) =
         \<lparr>who = name l, arg = fresh h, items = arrs h p, seen = map (prjs h) (arrs h p)\<rparr> #
         (case r of None \<Rightarrow> notified h2 (snd (for_listeners ls p h2)) | Some e \<Rightarrow> [])
     \<and> fresh h2 = Suc (fresh h)
     \<and> (\<forall>x. x < fresh h \<longrightarrow> arrs h2 x = arrs h x)
     \<and> (array_only l \<longrightarrow> prjs h2 = prjs h \<and> r = None)"
proof -
  let ?e = "\<lparr>who = name l, arg = fresh h, items = arrs h p, seen = map (prjs h) (arrs h p)\<rparr>"
  obtain r h2 where s: "for_listeners (l # ls) p h = (case r of None \<Rightarrow> for_listeners ls p h2 | Some e \<Rightarrow> (Some e, h2))"
    "fresh h2 = Suc (fresh h)" "calls h2 = calls h @ [?e]"
    "\<forall>x. x < fresh h \<longrightarrow> arrs h2 x = arrs h x"
    "array_only l \<longrightarrow> prjs h2 = prjs h \<and> r = None"
    using for_listeners_Cons[of l ls p h] by blast
  have "notified h (snd (for_listeners (l # ls) p h)) =
      ?e # (case r of None \<Rightarrow> notified h2 (snd (for_listeners ls p h2)) | Some e \<Rightarrow> [])"
  proof (cases r)
    case None
    have "calls (snd (for_listeners (l # ls) p h)) =
        calls h @ ?e # notified h2 (snd (for_listeners ls p h2))"
      using for_listeners_calls_append[of ls p h2] s(3)
      by (simp add: s(1) None del: for_listeners.simps)
    then show ?thesis by (simp add: notified_def None del: for_listeners.simps)
  next
    case (Some x)
    then show ?thesis using s(3) by (simp add: notified_def s(1) del: for_listeners.simps)
  qed
  with s show ?thesis by blast
qed

lemma for_listeners_log:
  "prefix (map who (notified h (snd (for_listeners ls p h)))) (map name ls)
   \<and> (fst (for_listeners ls p h) = None \<longrightarrow>
        map who (notified h (snd (for_listeners ls p h))) = map name ls)
   \<and> (ls \<noteq> [] \<longrightarrow> notified h (snd (for_listeners ls p h)) \<noteq> []
        \<and> seen (hd (notified h (snd (for_listeners ls p h)))) = map (prjs h) (arrs h p))
   \<and> (p < fresh h \<longrightarrow> (\<forall>e\<in>set (notified h (snd (for_listeners ls p h))). items e = arrs h p))
   \<and> (p < fresh h \<longrightarrow> list_all array_only ls \<longrightarrow>
        (\<forall>e\<in>set (notified h (snd (for_listeners ls p h))). seen e = map (prjs h) (arrs h p)))
   \<and> (\<forall>e\<in>set (notified h (snd (for_listeners ls p h))). fresh h \<le> arg e)"
proof (induction ls arbitrary: h)
  case Nil
  then show ?case by (simp add: notified_def)
next
  case (Cons l ls)
  obtain r h2 where s: "for_listeners (l # ls) p h = (case r of None \<Rightarrow> for_listeners ls p h2 | Some e \<Rightarrow> (Some e, h2))"
    "notified h (snd (for_listeners (l # ls) p h)) =
         \<lparr>who = name l, arg = fresh h, items = arrs h p, seen = map (prjs h) (arrs h p)\<rparr> #
         (case r of None \<Rightarrow> notified h2 (snd (for_listeners ls p h2)) | Some e \<Rightarrow> [])"
    "fresh h2 = Suc (fresh h)"
    "\<forall>x. x < fresh h \<longrightarrow> arrs h2 x = arrs h x"
    "array_only l \<longrightarrow> prjs h2 = prjs h \<and> r = None"
    using notified_Cons[of l ls p h] by blast
  let ?e = "\<lparr>who = name l, arg = fresh h, items = arrs h p, seen = map (prjs h) (arrs h p)\<rparr>"
  let ?N2 = "notified h2 (snd (for_listeners ls p h2))"
  show ?case
  proof (cases r)
    case None
    have eqR: "for_listeners (l # ls) p h = for_listeners ls p h2"
      by (simp add: s(1) None del: for_listeners.simps)
    have eqN: "notified h (snd (for_listeners ls p h2)) = ?e # ?N2"
      using s(2) by (simp add: eqR None del: for_listeners.simps)
    note IH = Cons.IH[of h2]
    have 1: "prefix (map who (?e # ?N2)) (map name (l # ls))"
      using IH[THEN conjunct1] by simp
    have 2: "fst (for_listeners ls p h2) = None \<longrightarrow> map who (?e # ?N2) = map name (l # ls)"
      using IH[THEN conjunct2, THEN conjunct1] by simp
    have 3: "l # ls \<noteq> [] \<longrightarrow> ?e # ?N2 \<noteq> [] \<and> seen (hd (?e # ?N2)) = map (prjs h) (arrs h p)"
      by simp
    have 4: "p < fresh h \<longrightarrow> (\<forall>e\<in>set (?e # ?N2). items e = arrs h p)"
      using IH[THEN conjunct2, THEN conjunct2, THEN conjunct2, THEN conjunct1] s(3,4)
      by simp
    have 5: "p < fresh h \<longrightarrow> list_all array_only (l # ls) \<longrightarrow>
        (\<forall>e\<in>set (?e # ?N2). seen e = map (prjs h) (arrs h p))"
      using IH[THEN conjunct2, THEN conjunct2, THEN conjunct2, THEN conjunct2, THEN conjunct1]
        s(3,4,5) by simp
    have 6: "\<forall>e\<in>set (?e # ?N2). fresh h \<le> arg e"
      using IH[THEN conjunct2, THEN conjunct2, THEN conjunct2, THEN conjunct2, THEN conjunct2]
        s(3) by auto
    show ?thesis unfolding eqR eqN using 1 2 3 4 5 6 by (intro conjI) assumption+
  next
    case (Some x)
    have eqR: "for_listeners (l # ls) p h = (Some x, h2)"
      by (simp add: s(1) Some del: for_listeners.simps)
    have eqN: "notified h h2 = [?e]"
      using s(2) by (simp add: eqR Some del: for_listeners.simps)
    have na: "\<not> array_only l" using s(5) Some by auto
    have 1: "prefix (map who [?e]) (map name (l # ls))" by simp
    have 2: "fst (Some x, h2) = None \<longrightarrow> map who [?e] = map name (l # ls)" by simp
    have 3: "l # ls \<noteq> [] \<longrightarrow> [?e] \<noteq> [] \<and> seen (hd [?e]) = map (prjs h) (arrs h p)" by simp
    have 4: "p < fresh h \<longrightarrow> (\<forall>e\<in>set [?e]. items e = arrs h p)" by simp
    have 5: "p < fresh h \<longrightarrow> list_all array_only (l # ls) \<longrightarrow>
        (\<forall>e\<in>set [?e]. seen e = map (prjs h) (arrs h p))"
      using na by simp
    have 6: "\<forall>e\<in>set [?e]. fresh h \<le> arg e" by simp
    show ?thesis unfolding eqR snd_conv eqN using 1 2 3 4 5 6 by (intro conjI) assumption+
  qed
qed

lemma map_const_replicate: "\<forall>e\<in>set xs. f e = v \<Longrightarrow> map f xs = replicate (length xs) v"
  by (induction xs) auto

lemma map_upd_notin: "r \<notin> set xs \<Longrightarrow> map (f(r := v)) xs = map f xs"
  by (induction xs) auto

text \<open>What \<^verbatim>\<open>addProject\<close> leaves behind.\<close>

lemma addProject_loop:
  "\<exists>h2. addProject s rnd t d n h = for_listeners (listeners s) (projects s) h2
     \<and> fresh h2 = Suc (fresh h) \<and> calls h2 = calls h
     \<and> arrs h2 = (arrs h)((projects s) := arrs h (projects s) @ [fresh h])
     \<and> prjs h2 = (prjs h)(fresh h :=
          \<lparr>id_prj = rnd, title = t, description = d, people = n, status = Active\<rparr>)"
  by (rule exI[of _ "push (projects s) (fresh h)
        (snd (new_Project \<lparr>id_prj = rnd, title = t, description = d, people = n, status = Active\<rparr> h))"])
    (simp add: addProject_def new_Project_def push_def)

lemma addProject_arrs:
  assumes "projects s < fresh h"
  shows "arrs (snd (addProject s rnd t d n h)) (projects s) = arrs h (projects s) @ [fresh h]"
proof -
  obtain h2 where h2: "addProject s rnd t d n h = for_listeners (listeners s) (projects s) h2"
    "fresh h2 = Suc (fresh h)" "arrs h2 = (arrs h)((projects s) := arrs h (projects s) @ [fresh h])"
    using addProject_loop[of s rnd t d n h] by blast
  have "projects s < fresh h2" using assms h2(2) by simp
  from for_listeners_arrs[OF this] show ?thesis by (simp add: h2(1,3))
qed


lemma addProject_quiet:
  assumes "list_all array_only (listeners s)"
  shows "prjs (snd (addProject s rnd t d n h)) =
     (prjs h)(fresh h := \<lparr>id_prj = rnd, title = t, description = d, people = n, status = Active\<rparr>)
     \<and> fst (addProject s rnd t d n h) = None"
proof -
  obtain h2 where h2: "addProject s rnd t d n h = for_listeners (listeners s) (projects s) h2"
    "prjs h2 = (prjs h)(fresh h :=
          \<lparr>id_prj = rnd, title = t, description = d, people = n, status = Active\<rparr>)"
    using addProject_loop[of s rnd t d n h] by blast
  show ?thesis using for_listeners_quiet[OF assms, of "projects s" h2] by (simp add: h2)
qed

lemma addProject_collection:
  assumes "store_inv s h" and "list_all array_only (listeners s)"
  shows "collection s (snd (addProject s rnd t d n h)) =
     collection s h @ [\<lparr>id_prj = rnd, title = t, description = d, people = n, status = Active\<rparr>]"
proof -
  have p: "projects s < fresh h" and nin: "fresh h \<notin> set (arrs h (projects s))"
    using assms(1) by (auto simp: store_inv_def list_all_iff)
  show ?thesis
    using addProject_quiet[OF assms(2), of rnd t d n h] nin
    by (simp add: collection_def addProject_arrs[OF p] map_upd_notin)
qed


lemma addProject_log:
  assumes "store_inv s h"
  shows "prefix (map who (notified h (snd (addProject s rnd t d n h)))) (map name (listeners s))
   \<and> (fst (addProject s rnd t d n h) = None \<longrightarrow>
        map who (notified h (snd (addProject s rnd t d n h))) = map name (listeners s))
   \<and> (listeners s \<noteq> [] \<longrightarrow> notified h (snd (addProject s rnd t d n h)) \<noteq> []
        \<and> seen (hd (notified h (snd (addProject s rnd t d n h)))) = collection s h @
             [\<lparr>id_prj = rnd, title = t, description = d, people = n, status = Active\<rparr>])
   \<and> (\<forall>e\<in>set (notified h (snd (addProject s rnd t d n h))).
         items e = arrs h (projects s) @ [fresh h])
   \<and> (list_all array_only (listeners s) \<longrightarrow>
        (\<forall>e\<in>set (notified h (snd (addProject s rnd t d n h))). seen e = collection s h @
             [\<lparr>id_prj = rnd, title = t, description = d, people = n, status = Active\<rparr>]))"
proof -
  let ?P = "\<lparr>id_prj = rnd, title = t, description = d, people = n, status = Active\<rparr>"
  obtain h2 where h2: "addProject s rnd t d n h = for_listeners (listeners s) (projects s) h2"
    "fresh h2 = Suc (fresh h)" "calls h2 = calls h"
    "arrs h2 = (arrs h)((projects s) := arrs h (projects s) @ [fresh h])"
    "prjs h2 = (prjs h)(fresh h := ?P)"
    using addProject_loop[of s rnd t d n h] by blast
  have p: "projects s < fresh h2" and nin: "fresh h \<notin> set (arrs h (projects s))"
    using assms h2(2) by (auto simp: store_inv_def list_all_iff)
  have n: "notified h (snd (for_listeners (listeners s) (projects s) h2)) =
      notified h2 (snd (for_listeners (listeners s) (projects s) h2))"
    by (simp add: notified_def h2(3))
  have a: "arrs h2 (projects s) = arrs h (projects s) @ [fresh h]" by (simp add: h2(4))
  have v: "map (prjs h2) (arrs h (projects s) @ [fresh h]) = collection s h @ [?P]"
    using nin by (simp add: h2(5) collection_def map_upd_notin)
  have L: "prefix (map who (notified h2 (snd (for_listeners (listeners s) (projects s) h2))))
        (map name (listeners s))
   \<and> (fst (for_listeners (listeners s) (projects s) h2) = None \<longrightarrow>
        map who (notified h2 (snd (for_listeners (listeners s) (projects s) h2))) =
          map name (listeners s))
   \<and> (listeners s \<noteq> [] \<longrightarrow> notified h2 (snd (for_listeners (listeners s) (projects s) h2)) \<noteq> []
        \<and> seen (hd (notified h2 (snd (for_listeners (listeners s) (projects s) h2)))) =
            collection s h @ [?P])
   \<and> (projects s < fresh h2 \<longrightarrow>
        (\<forall>e\<in>set (notified h2 (snd (for_listeners (listeners s) (projects s) h2))).
           items e = arrs h (projects s) @ [fresh h]))
   \<and> (projects s < fresh h2 \<longrightarrow> list_all array_only (listeners s) \<longrightarrow>
        (\<forall>e\<in>set (notified h2 (snd (for_listeners (listeners s) (projects s) h2))).
           seen e = collection s h @ [?P]))
   \<and> (\<forall>e\<in>set (notified h2 (snd (for_listeners (listeners s) (projects s) h2))).
         fresh h2 \<le> arg e)"
    using for_listeners_log[of h2 "listeners s" "projects s"] unfolding a v .
  show ?thesis unfolding h2(1) n using L p by simp
qed


lemma find_at_first:
  assumes "i < length xs" and "P (xs ! i)" and "list_all (\<lambda>x. \<not> P x) (take i xs)"
  shows "find P xs = Some (xs ! i)"
proof -
  have "\<forall>j<i. \<not> P (xs ! j)"
  proof (intro allI impI)
    fix j assume "j < i"
    then have "xs ! j \<in> set (take i xs)" using assms(1) by (auto simp: in_set_conv_nth)
    with assms(3) show "\<not> P (xs ! j)" by (simp add: list_all_iff)
  qed
  with assms(1,2) show ?thesis by (auto simp: find_Some_iff)
qed

lemma moveProject_miss:
  "find (\<lambda>prj. id_prj (prjs h prj) = pid) (arrs h (projects s)) = None \<Longrightarrow>
   moveProject s pid st h = (None, h)"
  by (simp add: moveProject_def)

lemma moveProject_same:
  "find (\<lambda>prj. id_prj (prjs h prj) = pid) (arrs h (projects s)) = Some r \<Longrightarrow> status (prjs h r) = st
   \<Longrightarrow> moveProject s pid st h = (None, h)"
  by (simp add: moveProject_def)


lemma moveProject_cases:
  "moveProject s pid st h = (None, h)
   \<or> (\<exists>r. find (\<lambda>prj. id_prj (prjs h prj) = pid) (arrs h (projects s)) = Some r
         \<and> status (prjs h r) \<noteq> st
         \<and> moveProject s pid st h =
             for_listeners (listeners s) (projects s)
               (h\<lparr>prjs := (prjs h)(r := (prjs h r)\<lparr>status := st\<rparr>)\<rparr>))"
  by (simp add: moveProject_def updateListeners_def split: option.splits)

lemma moveProject_arrs:
  assumes "projects s < fresh h"
  shows "arrs (snd (moveProject s pid st h)) (projects s) = arrs h (projects s)"
  using moveProject_cases[of s pid st h]
proof (elim disjE exE conjE)
  assume "moveProject s pid st h = (None, h)"
  then show ?thesis by simp
next
  fix r
  assume m: "moveProject s pid st h =
      for_listeners (listeners s) (projects s) (h\<lparr>prjs := (prjs h)(r := (prjs h r)\<lparr>status := st\<rparr>)\<rparr>)"
  show ?thesis
    using for_listeners_arrs[of "projects s" "h\<lparr>prjs := (prjs h)(r := (prjs h r)\<lparr>status := st\<rparr>)\<rparr>"
        "listeners s" "projects s"] assms
    by (simp add: m)
qed

lemma moveProject_fresh: "fresh h \<le> fresh (snd (moveProject s pid st h))"
  using moveProject_cases[of s pid st h]
proof (elim disjE exE conjE)
  assume "moveProject s pid st h = (None, h)"
  then show ?thesis by simp
next
  fix r
  assume m: "moveProject s pid st h =
      for_listeners (listeners s) (projects s) (h\<lparr>prjs := (prjs h)(r := (prjs h r)\<lparr>status := st\<rparr>)\<rparr>)"
  show ?thesis
    using for_listeners_fresh[of "h\<lparr>prjs := (prjs h)(r := (prjs h r)\<lparr>status := st\<rparr>)\<rparr>"
        "listeners s" "projects s"]
    by (simp add: m)
qed





lemma moveProject_store_inv:
  assumes "store_inv s h"
  shows "store_inv s (snd (moveProject s pid st h))"
proof -
  have p: "projects s < fresh h" using assms by (simp add: store_inv_def)
  have "\<forall>r\<in>set (arrs h (projects s)). r < fresh (snd (moveProject s pid st h))"
    using assms moveProject_fresh[of h s pid st] by (fastforce simp: store_inv_def list_all_iff)
  moreover have "projects s < fresh (snd (moveProject s pid st h))"
    using p moveProject_fresh[of h s pid st] by simp
  ultimately show ?thesis
    using assms by (simp add: store_inv_def moveProject_arrs[OF p] list_all_iff)
qed



text \<open>\<^verbatim>\<open>getInstance\<close> after \<^verbatim>\<open>getInstance\<close>.\<close>

lemma getInstance_again: "getInstance (snd (getInstance pr)) = getInstance pr"
  by (simp add: getInstance_def new_ProjectState_def split: option.splits)

lemma getInstances_same:
  "0 < k \<Longrightarrow> getInstances k pr = (replicate k (fst (getInstance pr)), snd (getInstance pr))"
proof (induction k arbitrary: pr)
  case 0
  then show ?case by simp
next
  case (Suc k)
  obtain inst pr1 where g: "getInstance pr = (inst, pr1)" by (cases "getInstance pr")
  have g1: "getInstance pr1 = (inst, pr1)" using getInstance_again[of pr] g by simp
  show ?case
  proof (cases k)
    case 0
    then show ?thesis by (simp add: g)
  next
    case (Suc m)
    then have "getInstances k pr1 = (replicate k inst, pr1)"
      using Suc.IH[of pr1] g1 by simp
    then show ?thesis by (simp add: g)
  qed
qed

lemma getInstance_single:
  "single_instance pr \<Longrightarrow> map fst (states (snd (getInstance pr))) = [fst (getInstance pr)]
     \<and> the_instance (snd (getInstance pr)) = Some (fst (getInstance pr))"
  by (auto simp: single_instance_def getInstance_def new_ProjectState_def split: option.splits)

text \<open>The store that \<^verbatim>\<open>getInstance\<close> constructs starts out with \<open>store_inv\<close>.\<close>

lemma getInstance_store_inv:
  "the_instance pr = None \<Longrightarrow>
   store_inv \<lparr>listeners = [], projects = fresh (mem pr)\<rparr> (mem (snd (getInstance pr)))
   \<and> states (snd (getInstance pr)) =
       states pr @ [(fst (getInstance pr), \<lparr>listeners = [], projects = fresh (mem pr)\<rparr>)]"
  by (simp add: getInstance_def new_ProjectState_def store_inv_def)


section \<open>The claims\<close>




text \<open>
  C2, as amended. Every listener is handed an array of its own, never the array of the
  store. Whatever the listeners do, write to the arrays or to the objects in them or
  throw, the array of the store holds the same references in the same order
  afterwards, and every array that the next notification hands out holds exactly
  these; the next notification hands out one array per listener when it ends
  normally. If the listeners write to the arrays only, the projects of the store have
  the same field values afterwards, and the next notification shows them so to every
  listener. The loop is the one of \<^verbatim>\<open>addProject\<close> and of \<^verbatim>\<open>updateListeners\<close>, with \<open>p\<close> the
  array of the store.
\<close>

theorem snapshot_copy_isolated:
  assumes "p < fresh h"
  shows "(\<forall>e \<in> set (notified h (snd (for_listeners ls p h))). arg e \<noteq> p)
    \<and> arrs (snd (for_listeners ls p h)) p = arrs h p
    \<and> (\<forall>e \<in> set (notified (snd (for_listeners ls p h))
                   (snd (for_listeners ls p (snd (for_listeners ls p h))))).
          items e = arrs h p)
    \<and> (fst (for_listeners ls p (snd (for_listeners ls p h))) = None \<longrightarrow>
        map items (notified (snd (for_listeners ls p h))
                     (snd (for_listeners ls p (snd (for_listeners ls p h))))) =
          replicate (length ls) (arrs h p))
    \<and> (list_all array_only ls \<longrightarrow>
        map (prjs (snd (for_listeners ls p h))) (arrs (snd (for_listeners ls p h)) p) =
          map (prjs h) (arrs h p)
        \<and> map items (notified (snd (for_listeners ls p h))
                       (snd (for_listeners ls p (snd (for_listeners ls p h))))) =
            replicate (length ls) (arrs h p)
        \<and> map seen (notified (snd (for_listeners ls p h))
                      (snd (for_listeners ls p (snd (for_listeners ls p h))))) =
            replicate (length ls) (map (prjs h) (arrs h p)))"
proof -
  let ?h1 = "snd (for_listeners ls p h)"
  let ?N = "notified ?h1 (snd (for_listeners ls p ?h1))"
  have p1: "p < fresh ?h1" using assms for_listeners_fresh[of h ls p] by simp
  have a: "arrs ?h1 p = arrs h p" using assms by (rule for_listeners_arrs)
  note L0 = for_listeners_log[of h ls p]
  note L1 = for_listeners_log[of ?h1 ls p]
  have 1: "\<forall>e \<in> set (notified h ?h1). arg e \<noteq> p"
    using L0 assms by fastforce
  have 3: "\<forall>e \<in> set ?N. items e = arrs h p"
    using L1 p1 a by simp
  have len: "length ?N = length ls" if "fst (for_listeners ls p ?h1) = None"
  proof -
    have "map who ?N = map name ls" using L1 that by blast
    then show ?thesis by (rule map_eq_imp_length_eq)
  qed
  have 4: "map items ?N = replicate (length ls) (arrs h p)"
    if "fst (for_listeners ls p ?h1) = None"
    using map_const_replicate[OF 3] len[OF that] by simp
  have q: "prjs ?h1 = prjs h" "fst (for_listeners ls p ?h1) = None" if "list_all array_only ls"
    using for_listeners_quiet[OF that] by simp_all
  have 5: "map (prjs ?h1) (arrs ?h1 p) = map (prjs h) (arrs h p)" if "list_all array_only ls"
    using q(1)[OF that] a by simp
  have 6: "map seen ?N = replicate (length ls) (map (prjs h) (arrs h p))"
    if ao: "list_all array_only ls"
  proof -
    have "\<forall>e \<in> set ?N. seen e = map (prjs h) (arrs h p)"
      using L1 p1 ao 5[OF ao] by simp
    from map_const_replicate[OF this] len[OF q(2)[OF ao]] show ?thesis by simp
  qed
  show ?thesis using 1 a 3 4 5 6 q(2) by (intro conjI impI) simp_all
qed

theorem snapshot_copy_isolated_witness:
  "(0::nat) < fresh heap_one \<and> list_all array_only [reading, clearing]
   \<and> arrs (snd (for_listeners [reading, clearing] 0 heap_one)) 0 = [2]
   \<and> map (prjs (snd (for_listeners [reading, clearing] 0 heap_one)))
        (arrs (snd (for_listeners [reading, clearing] 0 heap_one)) 0) = map (prjs heap_one) [2]"
proof -
  have p: "(0::nat) < fresh heap_one" by (simp add: heap_one_def)
  have ao: "list_all array_only [reading, clearing]"
    by (simp add: array_only_def reading_def clearing_def)
  have v: "arrs heap_one 0 = [2]" by (simp add: heap_one_def)
  show ?thesis
    using p ao snapshot_copy_isolated[OF p, of "[reading, clearing]"]
    by (auto simp: v simp del: for_listeners.simps)
qed

text \<open>
  C2, as stated, fails: the copy is shallow. A listener that writes
  \<^verbatim>\<open>items[0].status = ProjectStatus.Finished\<close> to the array it received changes the
  project of the store, and the next notification shows the changed project.
\<close>

theorem snapshot_element_write_counterexample:
  "collection store_f (snd (updateListeners store_f heap_one)) \<noteq> collection store_f heap_one
   \<and> map (map status)
       (map seen (notified (snd (updateListeners store_f heap_one))
          (snd (updateListeners store_f (snd (updateListeners store_f heap_one)))))) =
     [[Finished], [Finished]]"
  by (simp add: collection_def updateListeners_def store_f_def heap_one_def finishing_def
      reading_def slice_arr_def invoke_def notified_def)

text \<open>
  C3, as amended. After \<^verbatim>\<open>addProject\<close>, whether it returns or a listener throws, the
  array of the store is the array before with one new reference at the end, the
  reference of an object that was not there before. The listeners called are the
  first listeners of the registration list, in order and each once, and each was
  handed an array with the references of the store, the new one last; the first of
  them was shown the projects as they were before, followed by the new project with
  the given title, description and people count and status \<open>Active\<close>. If the call
  returns normally, every registered listener has been called. If the listeners leave
  the projects alone, the call returns normally, the projects of the store are the
  projects before, unchanged and in place, followed by the new project, and this is
  what every listener was shown.
\<close>

theorem addProject_appends_and_notifies:
  assumes "store_inv s h"
  shows "arrs (snd (addProject s rnd t d n h)) (projects s) = arrs h (projects s) @ [fresh h]
    \<and> fresh h \<notin> set (arrs h (projects s))
    \<and> prefix (map who (notified h (snd (addProject s rnd t d n h)))) (map name (listeners s))
    \<and> (\<forall>e \<in> set (notified h (snd (addProject s rnd t d n h))).
          items e = arrs h (projects s) @ [fresh h] \<and> last (items e) = fresh h)
    \<and> (listeners s \<noteq> [] \<longrightarrow>
          notified h (snd (addProject s rnd t d n h)) \<noteq> []
          \<and> seen (hd (notified h (snd (addProject s rnd t d n h)))) =
              collection s h @
                [\<lparr>id_prj = rnd, title = t, description = d, people = n, status = Active\<rparr>])
    \<and> (fst (addProject s rnd t d n h) = None \<longrightarrow>
          map who (notified h (snd (addProject s rnd t d n h))) = map name (listeners s))
    \<and> (list_all array_only (listeners s) \<longrightarrow>
          fst (addProject s rnd t d n h) = None
          \<and> collection s (snd (addProject s rnd t d n h)) =
              collection s h @
                [\<lparr>id_prj = rnd, title = t, description = d, people = n, status = Active\<rparr>]
          \<and> (\<forall>e \<in> set (notified h (snd (addProject s rnd t d n h))).
                seen e = collection s h @
                  [\<lparr>id_prj = rnd, title = t, description = d, people = n, status = Active\<rparr>]))"
proof -
  have p: "projects s < fresh h" using assms by (simp add: store_inv_def)
  note L = addProject_log[OF assms, of rnd t d n]
  have 1: "arrs (snd (addProject s rnd t d n h)) (projects s) = arrs h (projects s) @ [fresh h]"
    using p by (rule addProject_arrs)
  have 2: "fresh h \<notin> set (arrs h (projects s))"
    using assms by (auto simp: store_inv_def list_all_iff)
  have 3: "prefix (map who (notified h (snd (addProject s rnd t d n h)))) (map name (listeners s))"
    using L by (rule conjunct1)
  have 4: "\<forall>e \<in> set (notified h (snd (addProject s rnd t d n h))).
          items e = arrs h (projects s) @ [fresh h] \<and> last (items e) = fresh h"
    using L by simp
  have 5: "listeners s \<noteq> [] \<longrightarrow>
          notified h (snd (addProject s rnd t d n h)) \<noteq> []
          \<and> seen (hd (notified h (snd (addProject s rnd t d n h)))) =
              collection s h @
                [\<lparr>id_prj = rnd, title = t, description = d, people = n, status = Active\<rparr>]"
    using L[THEN conjunct2, THEN conjunct2, THEN conjunct1] .
  have 6: "fst (addProject s rnd t d n h) = None \<longrightarrow>
          map who (notified h (snd (addProject s rnd t d n h))) = map name (listeners s)"
    using L[THEN conjunct2, THEN conjunct1] .
  have 7: "fst (addProject s rnd t d n h) = None
          \<and> collection s (snd (addProject s rnd t d n h)) =
              collection s h @
                [\<lparr>id_prj = rnd, title = t, description = d, people = n, status = Active\<rparr>]
          \<and> (\<forall>e \<in> set (notified h (snd (addProject s rnd t d n h))).
                seen e = collection s h @
                  [\<lparr>id_prj = rnd, title = t, description = d, people = n, status = Active\<rparr>])"
    if ao: "list_all array_only (listeners s)"
    using addProject_quiet[OF ao, of rnd t d n h] addProject_collection[OF assms ao, of rnd t d n]
      L[THEN conjunct2, THEN conjunct2, THEN conjunct2, THEN conjunct2] ao by simp
  show ?thesis using 1 2 3 4 5 6 7 by (intro conjI impI) simp_all
qed

theorem addProject_appends_and_notifies_witness:
  "store_inv store2 heap_one \<and> list_all array_only (listeners store2)
   \<and> fst (addProject store2 ''0.25'' ''T'' ''D'' 3 heap_one) = None
   \<and> arrs (snd (addProject store2 ''0.25'' ''T'' ''D'' 3 heap_one)) (projects store2) = [2, 3]
   \<and> map who (notified heap_one (snd (addProject store2 ''0.25'' ''T'' ''D'' 3 heap_one))) = [10, 11]
   \<and> collection store2 (snd (addProject store2 ''0.25'' ''T'' ''D'' 3 heap_one)) =
       [\<lparr>id_prj = ''0.5'', title = ''T'', description = ''D'', people = 3, status = Active\<rparr>,
        \<lparr>id_prj = ''0.25'', title = ''T'', description = ''D'', people = 3, status = Active\<rparr>]"
proof -
  have inv: "store_inv store2 heap_one" by (simp add: store_inv_def store2_def heap_one_def)
  have ao: "list_all array_only (listeners store2)"
    by (simp add: store2_def array_only_def reading_def clearing_def)
  have v: "arrs heap_one (projects store2) = [2]" "fresh heap_one = 3"
    "map name (listeners store2) = [10, 11]"
    "collection store2 heap_one =
       [\<lparr>id_prj = ''0.5'', title = ''T'', description = ''D'', people = 3, status = Active\<rparr>]"
    by (simp_all add: store2_def heap_one_def collection_def reading_def clearing_def)
  show ?thesis
    using inv ao addProject_appends_and_notifies[OF inv, of "''0.25''" "''T''" "''D''" 3]
    by (simp add: v)
qed

text \<open>
  C3, as stated, fails on a store whose listeners are, in this order, one that writes
  \<^verbatim>\<open>items[0].status = ProjectStatus.Finished\<close>, one that throws and one that only reads:
  after \<^verbatim>\<open>addProject\<close> the project stored before has another status, and the third
  listener has not been called.
\<close>

theorem addProject_listeners_counterexample:
  "map who (notified heap_one (snd (addProject store_ft ''0.25'' ''T'' ''D'' 3 heap_one))) = [12, 13]
   \<and> map name (listeners store_ft) = [12, 13, 10]
   \<and> fst (addProject store_ft ''0.25'' ''T'' ''D'' 3 heap_one) = Some TypeError
   \<and> map status (collection store_ft heap_one) = [Active]
   \<and> map status (collection store_ft (snd (addProject store_ft ''0.25'' ''T'' ''D'' 3 heap_one))) =
       [Finished, Active]"
  by (simp add: addProject_def new_Project_def push_def store_ft_def heap_one_def finishing_def
      thrower_def reading_def slice_arr_def invoke_def notified_def collection_def)

text \<open>
  C4. If no project of the store has the id, \<^verbatim>\<open>moveProject\<close> returns normally with the
  memory as it was: no project added, removed or changed, and no listener called.
\<close>

theorem moveProject_unknown_id:
  assumes "pid \<notin> set (map id_prj (collection s h))"
  shows "moveProject s pid st h = (None, h) \<and> notified h (snd (moveProject s pid st h)) = []"
proof -
  have "find (\<lambda>prj. id_prj (prjs h prj) = pid) (arrs h (projects s)) = None"
    using assms by (auto simp: find_None_iff collection_def)
  then show ?thesis by (simp add: moveProject_miss notified_def)
qed

theorem moveProject_unknown_id_witness:
  "''nonexistent-id'' \<notin> set (map id_prj (collection store2 heap_one))
   \<and> moveProject store2 ''nonexistent-id'' Finished heap_one = (None, heap_one)"
  using moveProject_unknown_id[of "''nonexistent-id''" store2 heap_one Finished]
  by (simp add: collection_def store2_def heap_one_def)

text \<open>
  C5, as amended. \<^verbatim>\<open>moveProject\<close> looks at the first project with the id. If the
  project at position \<open>i\<close> has the id and the new status and no project before it has
  the id, \<^verbatim>\<open>moveProject\<close> returns normally with the memory as it was and no listener
  is called. When the ids of the store are pairwise distinct this holds for any
  project of the store that has the id and the new status.
\<close>

theorem moveProject_same_status:
  "(i < length (arrs h (projects s))
      \<and> id_prj (prjs h (arrs h (projects s) ! i)) = pid
      \<and> status (prjs h (arrs h (projects s) ! i)) = st
      \<and> list_all (\<lambda>prj. id_prj (prjs h prj) \<noteq> pid) (take i (arrs h (projects s)))
    \<longrightarrow> moveProject s pid st h = (None, h) \<and> notified h (snd (moveProject s pid st h)) = [])
   \<and> (distinct (map id_prj (collection s h)) \<and> r \<in> set (arrs h (projects s))
      \<and> id_prj (prjs h r) = pid \<and> status (prjs h r) = st
    \<longrightarrow> moveProject s pid st h = (None, h) \<and> notified h (snd (moveProject s pid st h)) = [])"
proof (rule conjI; rule impI)
  assume a: "i < length (arrs h (projects s))
      \<and> id_prj (prjs h (arrs h (projects s) ! i)) = pid
      \<and> status (prjs h (arrs h (projects s) ! i)) = st
      \<and> list_all (\<lambda>prj. id_prj (prjs h prj) \<noteq> pid) (take i (arrs h (projects s)))"
  then have "find (\<lambda>prj. id_prj (prjs h prj) = pid) (arrs h (projects s)) =
      Some (arrs h (projects s) ! i)"
    by (intro find_at_first) simp_all
  with a show "moveProject s pid st h = (None, h) \<and> notified h (snd (moveProject s pid st h)) = []"
    by (simp add: moveProject_same notified_def)
next
  assume a: "distinct (map id_prj (collection s h)) \<and> r \<in> set (arrs h (projects s))
      \<and> id_prj (prjs h r) = pid \<and> status (prjs h r) = st"
  let ?xs = "arrs h (projects s)"
  from a obtain k where k: "k < length ?xs" "?xs ! k = r" by (auto simp: in_set_conv_nth)
  have d: "distinct (map (\<lambda>x. id_prj (prjs h x)) ?xs)"
    using a by (simp add: collection_def comp_def)
  have "\<forall>j<k. id_prj (prjs h (?xs ! j)) \<noteq> pid"
  proof (intro allI impI notI)
    fix j assume j: "j < k" and e: "id_prj (prjs h (?xs ! j)) = pid"
    have "id_prj (prjs h (?xs ! j)) = id_prj (prjs h (?xs ! k))"
      using k a e by simp
    with d j k(1) show False by (auto simp: distinct_conv_nth)
  qed
  then have "find (\<lambda>prj. id_prj (prjs h prj) = pid) ?xs = Some r"
    using k a by (auto simp: find_Some_iff)
  with a show "moveProject s pid st h = (None, h) \<and> notified h (snd (moveProject s pid st h)) = []"
    by (simp add: moveProject_same notified_def)
qed

theorem moveProject_same_status_witness:
  "(0::nat) < length (arrs heap_fin (projects store2))
   \<and> id_prj (prjs heap_fin (arrs heap_fin (projects store2) ! 0)) = ''0.5''
   \<and> status (prjs heap_fin (arrs heap_fin (projects store2) ! 0)) = Finished
   \<and> list_all (\<lambda>prj. id_prj (prjs heap_fin prj) \<noteq> ''0.5'') (take 0 (arrs heap_fin (projects store2)))
   \<and> moveProject store2 ''0.5'' Finished heap_fin = (None, heap_fin)
   \<and> distinct (map id_prj (collection store2 heap_one)) \<and> 2 \<in> set (arrs heap_one (projects store2))
   \<and> id_prj (prjs heap_one 2) = ''0.5'' \<and> status (prjs heap_one 2) = Active
   \<and> moveProject store2 ''0.5'' Active heap_one = (None, heap_one)"
proof -
  have a: "(0::nat) < length (arrs heap_fin (projects store2))
      \<and> id_prj (prjs heap_fin (arrs heap_fin (projects store2) ! 0)) = ''0.5''
      \<and> status (prjs heap_fin (arrs heap_fin (projects store2) ! 0)) = Finished
      \<and> list_all (\<lambda>prj. id_prj (prjs heap_fin prj) \<noteq> ''0.5'')
           (take 0 (arrs heap_fin (projects store2)))"
    by (simp add: heap_fin_def store2_def)
  have b: "distinct (map id_prj (collection store2 heap_one))
      \<and> 2 \<in> set (arrs heap_one (projects store2))
      \<and> id_prj (prjs heap_one 2) = ''0.5'' \<and> status (prjs heap_one 2) = Active"
    by (simp add: heap_one_def store2_def collection_def)
  show ?thesis
    using a b moveProject_same_status[of 0 heap_fin store2 "''0.5''" Finished 2]
      moveProject_same_status[of 0 heap_one store2 "''0.5''" Active 2]
    by (simp only: simp_thms)
qed

text \<open>
  C5, as stated, fails when two projects have the id: the store holds the project at
  address 3 with id \<^verbatim>\<open>0.5\<close> and status \<open>Active\<close>, and \<^verbatim>\<open>moveProject('0.5', Active)\<close> sets
  the status of the first project with that id, at address 2, and calls the
  listeners.
\<close>

theorem moveProject_same_status_counterexample:
  "3 \<in> set (arrs heap_fin (projects store2)) \<and> id_prj (prjs heap_fin 3) = ''0.5''
   \<and> status (prjs heap_fin 3) = Active
   \<and> status (prjs heap_fin 2) = Finished
   \<and> status (prjs (snd (moveProject store2 ''0.5'' Active heap_fin)) 2) = Active
   \<and> map who (notified heap_fin (snd (moveProject store2 ''0.5'' Active heap_fin))) = [10, 11]"
  by (simp add: moveProject_def updateListeners_def store2_def heap_fin_def reading_def
      clearing_def slice_arr_def invoke_def notified_def)







text \<open>
  C8. With the \<^verbatim>\<open>ul\<close> of the list in place: if the first kind that the transfer
  channel declares is plain text, \<^verbatim>\<open>dragOverHandler\<close> prevents the default of the event
  and puts \<^verbatim>\<open>droppable\<close> on the class list, and does nothing else; in every other case,
  a channel that is \<^verbatim>\<open>null\<close> or declares no kind included, it does nothing at all. The
  memory of the store is never touched.
\<close>

theorem dragOverHandler_plain_text_only:
  assumes "ul_classList pg = Some cl"
  shows "(plain_text (event pg) \<longrightarrow>
           dragOverHandler pg =
             (None, pg\<lparr>event := (event pg)\<lparr>defaultPrevented := True\<rparr>,
                       ul_classList := Some (classList_add ''droppable'' cl)\<rparr>)
           \<and> ''droppable'' \<in> set (classList_add ''droppable'' cl))
    \<and> (\<not> plain_text (event pg) \<longrightarrow> dragOverHandler pg = (None, pg))
    \<and> store (snd (dragOverHandler pg)) = store pg"
  using assms by (simp add: dragOverHandler_def classList_add_def)

theorem dragOverHandler_plain_text_only_witness:
  "ul_classList page0 = Some [] \<and> plain_text (event page0)
   \<and> \<not> plain_text html_event
   \<and> dragOverHandler page0 =
       (None, page0\<lparr>event := text_event\<lparr>defaultPrevented := True\<rparr>, ul_classList := Some [''droppable'']\<rparr>)
   \<and> dragOverHandler (page0\<lparr>event := html_event\<rparr>) = (None, page0\<lparr>event := html_event\<rparr>)"
  using dragOverHandler_plain_text_only[of page0 "[]"]
    dragOverHandler_plain_text_only[of "page0\<lparr>event := html_event\<rparr>" "[]"]
  by (simp add: page0_def plain_text_def text_event_def html_event_def classList_add_def)

text \<open>
  C9. \<^verbatim>\<open>getInstance\<close> after \<^verbatim>\<open>getInstance\<close> returns the same reference and changes
  nothing, so any number of calls in a row return the reference of the first call and
  leave the process as the first call left it. In a process with no \<^verbatim>\<open>ProjectState\<close>
  yet, or with only the one that the static field refers to, there is exactly one
  afterwards: the one returned. No other function here constructs a
  \<^verbatim>\<open>ProjectState\<close>; that the constructor is \<^verbatim>\<open>private\<close> is a rule of the TypeScript
  compiler.
\<close>

theorem getInstance_singleton:
  assumes "single_instance pr"
  shows "getInstance (snd (getInstance pr)) = getInstance pr
    \<and> (0 < k \<longrightarrow> getInstances k pr = (replicate k (fst (getInstance pr)), snd (getInstance pr)))
    \<and> map fst (states (snd (getInstance pr))) = [fst (getInstance pr)]
    \<and> single_instance (snd (getInstance pr))"
  using getInstance_single[OF assms] getInstances_same[of k pr]
  by (simp add: getInstance_again single_instance_def)

theorem getInstance_singleton_witness:
  "single_instance process0
   \<and> getInstances 3 process0 = ([1, 1, 1], snd (getInstance process0))
   \<and> map fst (states (snd (getInstance process0))) = [1]"
  using getInstance_singleton[of process0 3]
  by (simp add: single_instance_def process0_def getInstance_def new_ProjectState_def heap0_def
      numeral_3_eq_3)




end
